theory Spec2Isabelle
  imports Main
begin

section \<open>The Redis scheduler module (memos/mem_scheduler/modules/redis_service.py)\<close>

text \<open>
  The class \<^verbatim>\<open>RedisSchedulerModule\<close> keeps a handle to a Redis client, publishes to
  the stream \<^verbatim>\<open>user:queries:stream\<close> and runs a listener on a background thread.
  Every method is embedded as a function on an explicit system state: the attributes of
  the instance, the store behind the client, the table of threads the instance has
  started, and the sequence of outputs (log records, prints, sleeps) produced so far.
  A Python exception is a value: a method that can raise returns its result in a sum
  whose left injection carries the exception.
\<close>

subsection \<open>Exceptions and outputs\<close>

text \<open>
  The exception classes the module distinguishes. \<open>ConnectionError\<close> is
  \<^verbatim>\<open>redis.ConnectionError\<close>; \<open>AttributeError\<close> is what a method call on \<^verbatim>\<open>None\<close>
  raises; \<open>OtherException name\<close> is any other subclass of \<^verbatim>\<open>Exception\<close>;
  \<open>BaseException name\<close> is a class outside \<^verbatim>\<open>Exception\<close> (\<^verbatim>\<open>KeyboardInterrupt\<close>,
  \<^verbatim>\<open>SystemExit\<close>, \<^verbatim>\<open>asyncio.CancelledError\<close>), which \<^verbatim>\<open>except Exception\<close> does
  not catch.
\<close>

datatype exn =
    ConnectionError
  | AttributeError
  | OtherException string
  | BaseException string

fun is_Exception :: "exn \<Rightarrow> bool" where
  "is_Exception (BaseException _) = False"
| "is_Exception _ = True"

type_synonym entry_id = nat
type_synonym message = "(string \<times> string) list"

datatype level = DEBUG | INFO | WARNING | ERROR

text \<open>The texts the module hands to its logger, with the values they interpolate.\<close>

datatype log_text =
    Connecting_to_Redis string int int
  | Redis_connection_failed
  | Redis_connection_error exn
  | Add_message_stream message
  | Consume_message_stream message
  | Listener_thread_error exn
  | Error_processing_message entry_id exn
  | Unexpected_error exn
  | Listener_is_already_running
  | Started_listener_thread
  | Listener_did_not_stop_gracefully
  | Listener_stopped

datatype effect =
    Log level log_text
  | Print message
  | Sleep nat

subsection \<open>The stream store and its client\<close>

text \<open>
  Modelled from the spec: the stream store and the client package \<^verbatim>\<open>redis\<close> are
  external to the repository. The store offers \<^verbatim>\<open>append(stream_key, fields) -> id\<close>,
  \<^verbatim>\<open>trim(stream_key, max_len)\<close>,
  \<^verbatim>\<open>blocking_range_read(stream_key, after_id, count, block_ms)\<close> and
  \<^verbatim>\<open>liveness_probe() -> bool\<close>; identifiers increase monotonically, a trim drops
  oldest entries, and a read returns the entries after the cursor.
  Only the one stream the module uses is kept. The field \<open>faults\<close> scripts, call by
  call, whether the next call into the client raises, so that every pattern of
  failures is an input; an exhausted script means that no further call raises.
  \<open>pong\<close> is the answer of the liveness probe when it does not raise.
  \<open>node_max_entries\<close> is the number of entries the server keeps in one macro node
  of a stream (its setting \<^verbatim>\<open>stream-node-max-entries\<close>, 100 unless configured);
  entries are appended one by one and evicted by whole nodes, so the nodes are the
  consecutive runs of that many entries, counted from the oldest.
\<close>

record store =
  entries :: "(entry_id \<times> message) list"
  last_generated :: entry_id
  faults :: "exn option list"
  pong :: bool
  node_max_entries :: nat

datatype conn = Redis string int int

datatype cursor = Dollar | After entry_id

definition stream_key :: string where
  "stream_key = ''user:queries:stream''"

definition next_fault :: "store \<Rightarrow> exn option \<times> store" where
  "next_fault w = (case faults w of [] \<Rightarrow> (None, w) | f # fs \<Rightarrow> (f, w\<lparr>faults := fs\<rparr>))"

definition connect :: "string \<Rightarrow> int \<Rightarrow> int \<Rightarrow> store \<Rightarrow> (exn + conn) \<times> store" where
  "connect host port db w =
     (case next_fault w of
        (Some e, w') \<Rightarrow> (Inl e, w')
      | (None, w') \<Rightarrow> (Inr (Redis host port db), w'))"

definition ping :: "conn \<Rightarrow> store \<Rightarrow> (exn + bool) \<times> store" where
  "ping c w =
     (case next_fault w of
        (Some e, w') \<Rightarrow> (Inl e, w')
      | (None, w') \<Rightarrow> (Inr (pong w'), w'))"

text \<open>
  The module calls \<^verbatim>\<open>xtrim(name, maxlen)\<close> with these two arguments only, so the
  client's parameter \<^verbatim>\<open>approximate\<close> has its default \<^verbatim>\<open>True\<close> and the command
  sent is \<^verbatim>\<open>XTRIM name MAXLEN ~ maxlen\<close>, with no \<^verbatim>\<open>LIMIT\<close>. The server then
  evicts whole macro nodes from the oldest end, a node only if at least \<open>maxlen\<close>
  entries remain without it, and at most 100 nodes in one call. \<open>approximate_evicted\<close>
  is the number of entries evicted from a stream of \<open>len\<close> entries; the reply of the
  call is that number.
\<close>

definition approximate_evicted :: "nat \<Rightarrow> nat \<Rightarrow> nat \<Rightarrow> nat" where
  "approximate_evicted node len maxlen =
     (if node = 0 then 0 else node * min 100 ((len - maxlen) div node))"

definition xtrim :: "conn \<Rightarrow> nat \<Rightarrow> store \<Rightarrow> (exn + nat) \<times> store" where
  "xtrim c maxlen w =
     (case next_fault w of
        (Some e, w') \<Rightarrow> (Inl e, w')
      | (None, w') \<Rightarrow>
          (let evicted = approximate_evicted (node_max_entries w') (length (entries w')) maxlen
           in (Inr evicted, w'\<lparr>entries := drop evicted (entries w')\<rparr>)))"

definition append_entry :: "message \<Rightarrow> store \<Rightarrow> store" where
  "append_entry m w =
     w\<lparr>entries := entries w @ [(Suc (last_generated w), m)],
       last_generated := Suc (last_generated w)\<rparr>"

definition xadd :: "conn \<Rightarrow> message \<Rightarrow> store \<Rightarrow> (exn + entry_id) \<times> store" where
  "xadd c m w =
     (case next_fault w of
        (Some e, w') \<Rightarrow> (Inl e, w')
      | (None, w') \<Rightarrow> (Inr (Suc (last_generated w')), append_entry m w'))"

text \<open>
  A tick is what the rest of the world does to the stream while one blocking read of
  the listener waits: the messages other clients append in that time. The cursor
  \<open>Dollar\<close> stands for the last identifier generated before the read began, so it
  only sees these arrivals. The reply lists, per stream, the entries read, and is
  empty when the wait ends with nothing to read.
\<close>

record tick =
  arrivals :: "message list"

definition xread ::
  "conn \<Rightarrow> cursor \<Rightarrow> nat \<Rightarrow> tick \<Rightarrow> store \<Rightarrow>
     (exn + (string \<times> (entry_id \<times> message) list) list) \<times> store" where
  "xread c last_id count t w =
     (case next_fault w of
        (Some e, w') \<Rightarrow> (Inl e, w')
      | (None, w') \<Rightarrow>
          (let start = (case last_id of Dollar \<Rightarrow> last_generated w' | After i \<Rightarrow> i);
               w'' = fold append_entry (arrivals t) w';
               batch = take count (filter (\<lambda>(i, _). start < i) (entries w''))
           in (Inr (if batch = [] then [] else [(stream_key, batch)]), w'')))"

subsection \<open>The instance and the system around it\<close>

record module =
  redis_host :: "string option"
  redis_port :: "int option"
  redis_db :: "int option"
  redis_conn :: "conn option"
  query_list_capacity :: nat
  redis_listener_running :: bool
  redis_listener_thread :: "nat option"
  redis_listener_loop :: "nat option"

text \<open>
  A handler receives the fields of one entry; it may write outputs and either returns
  or raises. A thread started by the module is at one of three points: started but not
  yet inside the listener (\<open>Spawned\<close>), at the head of the listener's loop with its
  cursor (\<open>Listening\<close>), or terminated (\<open>Finished\<close>).
\<close>

type_synonym handler = "message \<Rightarrow> effect list \<times> exn option"

datatype pc = Spawned | Listening cursor | Finished

record worker =
  handler :: handler
  pc :: pc

record system =
  self :: module
  store :: store
  threads :: "worker list"
  trace :: "effect list"

definition emit :: "effect list \<Rightarrow> system \<Rightarrow> system" where
  "emit os s = s\<lparr>trace := trace s @ os\<rparr>"

text \<open>
  The property \<^verbatim>\<open>redis\<close> reads and writes the attribute \<^verbatim>\<open>_redis_conn\<close>: its getter
  is the field \<open>redis_conn\<close>, its setter is \<open>set_conn\<close>.
\<close>

definition set_conn :: "conn option \<Rightarrow> system \<Rightarrow> system" where
  "set_conn c s = s\<lparr>self := (self s)\<lparr>redis_conn := c\<rparr>\<rparr>"

definition set_running :: "bool \<Rightarrow> system \<Rightarrow> system" where
  "set_running b s = s\<lparr>self := (self s)\<lparr>redis_listener_running := b\<rparr>\<rparr>"

definition is_alive :: "nat \<Rightarrow> system \<Rightarrow> bool" where
  "is_alive tid s = (tid < length (threads s) \<and> pc (threads s ! tid) \<noteq> Finished)"

definition init_module :: module where
  "init_module =
     \<lparr>redis_host = None, redis_port = None, redis_db = None, redis_conn = None,
      query_list_capacity = 1000, redis_listener_running = False,
      redis_listener_thread = None, redis_listener_loop = None\<rparr>"

subsection \<open>Connection manager\<close>

text \<open>
  \<open>initialize_redis\<close>: the two statements of the \<^verbatim>\<open>try\<close> block, the
  \<^verbatim>\<open>except redis.ConnectionError\<close> clause, and the two statements after the block.
  The call of \<^verbatim>\<open>xtrim\<close> is outside the \<^verbatim>\<open>try\<close>: on \<^verbatim>\<open>None\<close> it raises
  \<open>AttributeError\<close>, and whatever the client raises there reaches the caller.
\<close>

definition initialize_trim :: "system \<Rightarrow> (exn + conn option) \<times> system" where
  "initialize_trim s =
     (case redis_conn (self s) of
        None \<Rightarrow> (Inl AttributeError, s)
      | Some c \<Rightarrow>
          (case xtrim c (query_list_capacity (self s)) (store s) of
             (Inl e, w) \<Rightarrow> (Inl e, s\<lparr>store := w\<rparr>)
           | (Inr _, w) \<Rightarrow> (Inr (redis_conn (self s)), s\<lparr>store := w\<rparr>)))"

definition initialize_except :: "exn \<Rightarrow> system \<Rightarrow> (exn + conn option) \<times> system" where
  "initialize_except e s =
     (if e = ConnectionError
      then initialize_trim (emit [Log ERROR (Redis_connection_error e)] (set_conn None s))
      else (Inl e, s))"

definition initialize_redis ::
  "string \<Rightarrow> int \<Rightarrow> int \<Rightarrow> system \<Rightarrow> (exn + conn option) \<times> system" where
  "initialize_redis host port db s =
     (let s1 = s\<lparr>self := (self s)\<lparr>redis_host := Some host, redis_port := Some port,
                                  redis_db := Some db\<rparr>\<rparr>;
          s2 = emit [Log DEBUG (Connecting_to_Redis host port db)] s1
      in case connect host port db (store s2) of
           (Inl e, w) \<Rightarrow> initialize_except e (s2\<lparr>store := w\<rparr>)
         | (Inr c, w) \<Rightarrow>
             (let s3 = set_conn (Some c) (s2\<lparr>store := w\<rparr>)
              in case ping c (store s3) of
                   (Inl e, w') \<Rightarrow> initialize_except e (s3\<lparr>store := w'\<rparr>)
                 | (Inr ok, w') \<Rightarrow>
                     initialize_trim
                       ((if \<not> ok then emit [Log ERROR Redis_connection_failed] else id)
                          (s3\<lparr>store := w'\<rparr>))))"

text \<open>\<open>redis_close\<close>: closing the client releases its sockets and does not raise.\<close>

definition close :: "conn \<Rightarrow> store \<Rightarrow> store" where
  "close c w = w"

definition redis_close :: "system \<Rightarrow> system" where
  "redis_close s =
     (case redis_conn (self s) of
        None \<Rightarrow> s
      | Some c \<Rightarrow> set_conn None (s\<lparr>store := close c (store s)\<rparr>))"

subsection \<open>Publisher\<close>

text \<open>
  \<open>redis_add_message_stream\<close>, once awaited: the debug record, then \<^verbatim>\<open>xadd\<close> on
  the handle, with no test of the handle before the call.
\<close>

definition redis_add_message_stream :: "message \<Rightarrow> system \<Rightarrow> (exn + entry_id) \<times> system" where
  "redis_add_message_stream m s =
     (let s1 = emit [Log DEBUG (Add_message_stream m)] s
      in case redis_conn (self s1) of
           None \<Rightarrow> (Inl AttributeError, s1)
         | Some c \<Rightarrow>
             (case xadd c m (store s1) of
                (Inl e, w) \<Rightarrow> (Inl e, s1\<lparr>store := w\<rparr>)
              | (Inr i, w) \<Rightarrow> (Inr i, s1\<lparr>store := w\<rparr>)))"

definition redis_consume_message_stream :: handler where
  "redis_consume_message_stream m = ([Log DEBUG (Consume_message_stream m)], None)"

subsection \<open>Listener loop\<close>

text \<open>
  The innermost \<^verbatim>\<open>try\<close> of \<open>__redis_listen_query_stream\<close>, for one entry: print,
  await the handler, then assign the cursor; \<^verbatim>\<open>except Exception\<close> logs and goes on.
  The first component of the result is an exception that the clause does not catch.
\<close>

definition dispatch ::
  "handler \<Rightarrow> entry_id \<times> message \<Rightarrow> cursor \<Rightarrow> effect list \<Rightarrow> exn option \<times> cursor \<times> effect list" where
  "dispatch h entry last_id out =
     (case entry of (message_id, message_data) \<Rightarrow>
        (case h message_data of (written, raised) \<Rightarrow>
           (let out1 = out @ [Print message_data] @ written
            in case raised of
                 None \<Rightarrow> (None, After message_id, out1)
               | Some e \<Rightarrow>
                   (if is_Exception e
                    then (None, last_id, out1 @ [Log ERROR (Error_processing_message message_id e)])
                    else (Some e, last_id, out1)))))"

text \<open>The two \<^verbatim>\<open>for\<close> loops; an exception that escapes an entry ends both.\<close>

fun dispatch_entries ::
  "handler \<Rightarrow> (entry_id \<times> message) list \<Rightarrow> cursor \<Rightarrow> effect list \<Rightarrow> exn option \<times> cursor \<times> effect list" where
  "dispatch_entries h [] last_id out = (None, last_id, out)"
| "dispatch_entries h (entry # rest) last_id out =
     (case dispatch h entry last_id out of
        (Some e, last_id', out') \<Rightarrow> (Some e, last_id', out')
      | (None, last_id', out') \<Rightarrow> dispatch_entries h rest last_id' out')"

fun dispatch_messages ::
  "handler \<Rightarrow> (string \<times> (entry_id \<times> message) list) list \<Rightarrow> cursor \<Rightarrow> effect list \<Rightarrow>
     exn option \<times> cursor \<times> effect list" where
  "dispatch_messages h [] last_id out = (None, last_id, out)"
| "dispatch_messages h ((_, stream_messages) # rest) last_id out =
     (case dispatch_entries h stream_messages last_id out of
        (Some e, last_id', out') \<Rightarrow> (Some e, last_id', out')
      | (None, last_id', out') \<Rightarrow> dispatch_messages h rest last_id' out')"

text \<open>
  The two \<^verbatim>\<open>except\<close> clauses of the outer \<^verbatim>\<open>try\<close>: a connection error is logged,
  slept on for 5 seconds and the handle set to \<^verbatim>\<open>None\<close>; any other \<^verbatim>\<open>Exception\<close>
  is logged and slept on for 1 second; anything else leaves the loop.
\<close>

definition listen_except :: "exn \<Rightarrow> system \<Rightarrow> exn option \<times> system" where
  "listen_except e s =
     (if e = ConnectionError
      then (None, set_conn None (emit [Log ERROR (Redis_connection_error e), Sleep 5] s))
      else if is_Exception e
      then (None, emit [Log ERROR (Unexpected_error e), Sleep 1] s)
      else (Some e, s))"

text \<open>
  One pass through the body of the \<^verbatim>\<open>while\<close>. \<^verbatim>\<open>self.redis\<close> is the handle; the
  read on \<^verbatim>\<open>None\<close> raises \<open>AttributeError\<close> inside the outer \<^verbatim>\<open>try\<close>. The read asks
  for one entry (\<^verbatim>\<open>count=1\<close>).
\<close>

definition listen_body :: "handler \<Rightarrow> tick \<Rightarrow> cursor \<Rightarrow> system \<Rightarrow> exn option \<times> cursor \<times> system" where
  "listen_body h t last_id s =
     (case redis_conn (self s) of
        None \<Rightarrow> (case listen_except AttributeError s of (r, s') \<Rightarrow> (r, last_id, s'))
      | Some c \<Rightarrow>
          (case xread c last_id 1 t (store s) of
             (Inl e, w) \<Rightarrow>
               (case listen_except e (s\<lparr>store := w\<rparr>) of (r, s') \<Rightarrow> (r, last_id, s'))
           | (Inr messages, w) \<Rightarrow>
               (case dispatch_messages h messages last_id (trace s) of
                  (None, last_id', out) \<Rightarrow> (None, last_id', s\<lparr>store := w, trace := out\<rparr>)
                | (Some e, last_id', out) \<Rightarrow>
                    (case listen_except e (s\<lparr>store := w, trace := out\<rparr>) of
                       (r, s') \<Rightarrow> (r, last_id', s')))))"

text \<open>
  The loop, from its head: the test of the running flag, then the body. A list of
  ticks bounds the number of passes, one tick per blocking read; with the ticks used
  up the loop is still at its head (\<open>Continue\<close> with the cursor), otherwise it has
  returned (the flag was found cleared) or an exception has left it.
\<close>

datatype progress = Continue cursor | Return | Raise exn

definition listen_iteration :: "handler \<Rightarrow> tick \<Rightarrow> cursor \<Rightarrow> system \<Rightarrow> progress \<times> system" where
  "listen_iteration h t last_id s =
     (if redis_listener_running (self s)
      then (case listen_body h t last_id s of
              (None, last_id', s') \<Rightarrow> (Continue last_id', s')
            | (Some e, _, s') \<Rightarrow> (Raise e, s'))
      else (Return, s))"

fun listen_loop :: "handler \<Rightarrow> tick list \<Rightarrow> cursor \<Rightarrow> system \<Rightarrow> progress \<times> system" where
  "listen_loop h [] last_id s = (Continue last_id, s)"
| "listen_loop h (t # ts) last_id s =
     (case listen_iteration h t last_id s of
        (Continue last_id', s') \<Rightarrow> listen_loop h ts last_id' s'
      | (Return, s') \<Rightarrow> (Return, s')
      | (Raise e, s') \<Rightarrow> (Raise e, s'))"

text \<open>\<open>__redis_listen_query_stream\<close>: the flag is set, then the loop is entered.\<close>

definition redis_listen_query_stream ::
  "handler \<Rightarrow> cursor \<Rightarrow> tick list \<Rightarrow> system \<Rightarrow> progress \<times> system" where
  "redis_listen_query_stream h last_id ts s = listen_loop h ts last_id (set_running True s)"

subsection \<open>Lifecycle controller\<close>

text \<open>
  The thread \<open>tid\<close>, run for one tick. A thread that has not begun first executes
  \<open>_redis_run_listener_async\<close> up to the head of the loop: the event loop is created
  and recorded, and the listener is entered with its default cursor \<^verbatim>\<open>"$"\<close>, which
  sets the flag. At the head of the loop it makes one pass; when the loop ends, the
  wrapper logs an \<^verbatim>\<open>Exception\<close>, clears the flag in its \<^verbatim>\<open>finally\<close>, and the thread
  terminates.
\<close>

definition set_pc :: "nat \<Rightarrow> pc \<Rightarrow> system \<Rightarrow> system" where
  "set_pc tid p s = s\<lparr>threads := (threads s)[tid := (threads s ! tid)\<lparr>pc := p\<rparr>]\<rparr>"

definition thread_entry :: "nat \<Rightarrow> system \<Rightarrow> system" where
  "thread_entry tid s =
     set_pc tid (Listening Dollar)
       (set_running True (s\<lparr>self := (self s)\<lparr>redis_listener_loop := Some tid\<rparr>\<rparr>))"

definition listener_wrapper_end :: "nat \<Rightarrow> progress \<Rightarrow> system \<Rightarrow> system" where
  "listener_wrapper_end tid r s =
     (case r of
        Continue last_id \<Rightarrow> set_pc tid (Listening last_id) s
      | Return \<Rightarrow> set_pc tid Finished (set_running False s)
      | Raise e \<Rightarrow>
          set_pc tid Finished
            (set_running False
               ((if is_Exception e then emit [Log ERROR (Listener_thread_error e)] else id) s)))"

definition worker_step :: "nat \<Rightarrow> tick \<Rightarrow> system \<Rightarrow> system" where
  "worker_step tid t s =
     (if tid < length (threads s)
      then (let s0 = (if pc (threads s ! tid) = Spawned then thread_entry tid s else s)
            in case pc (threads s0 ! tid) of
                 Listening last_id \<Rightarrow>
                   (case listen_iteration (handler (threads s0 ! tid)) t last_id s0 of
                      (r, s') \<Rightarrow> listener_wrapper_end tid r s')
               | _ \<Rightarrow> s0)
      else s)"

definition run_worker :: "nat \<Rightarrow> tick list \<Rightarrow> system \<Rightarrow> system" where
  "run_worker tid ts s = fold (worker_step tid) ts s"

text \<open>\<open>redis_start_listening\<close>: the guard, the default handler, the new thread.\<close>

definition listener_alive :: "system \<Rightarrow> bool" where
  "listener_alive s =
     (case redis_listener_thread (self s) of None \<Rightarrow> False | Some tid \<Rightarrow> is_alive tid s)"

definition redis_start_listening :: "handler option \<Rightarrow> system \<Rightarrow> system" where
  "redis_start_listening handler_arg s =
     (if listener_alive s
      then emit [Log WARNING Listener_is_already_running] s
      else (let h = (case handler_arg of None \<Rightarrow> redis_consume_message_stream | Some f \<Rightarrow> f);
                tid = length (threads s)
            in emit [Log INFO Started_listener_thread]
                 (s\<lparr>threads := threads s @ [\<lparr>handler = h, pc = Spawned\<rparr>],
                    self := (self s)\<lparr>redis_listener_thread := Some tid\<rparr>\<rparr>)))"

text \<open>
  \<open>redis_stop_listening\<close>: the flag is cleared; a live thread is joined with a
  timeout, and the ticks given are what that thread does while the caller waits (none
  if it makes no progress in that time); the warning if it is still alive; the final
  record.
\<close>

definition join :: "nat \<Rightarrow> tick list \<Rightarrow> system \<Rightarrow> system" where
  "join tid ts s = run_worker tid ts s"

definition redis_stop_listening :: "tick list \<Rightarrow> system \<Rightarrow> system" where
  "redis_stop_listening ts s =
     (let s1 = set_running False s;
          s2 = (case redis_listener_thread (self s1) of
                  None \<Rightarrow> s1
                | Some tid \<Rightarrow>
                    (if is_alive tid s1
                     then (let s' = join tid ts s1
                           in if listener_alive s'
                              then emit [Log WARNING Listener_did_not_stop_gracefully] s'
                              else s')
                     else s1))
      in emit [Log INFO Listener_stopped] s2)"

subsection \<open>Runs of the system\<close>

text \<open>
  The calls a client of the instance can make, and the scheduler letting a thread run
  for one tick, in any order. An exception raised to the caller ends that call only;
  the state it leaves is the state the next call finds.
\<close>

datatype call =
    Initialize string int int
  | Publish message
  | Start "handler option"
  | Stop "tick list"
  | Close
  | Work nat tick

fun perform :: "call \<Rightarrow> system \<Rightarrow> system" where
  "perform (Initialize host port db) s = snd (initialize_redis host port db s)"
| "perform (Publish m) s = snd (redis_add_message_stream m s)"
| "perform (Start handler_arg) s = redis_start_listening handler_arg s"
| "perform (Stop ts) s = redis_stop_listening ts s"
| "perform Close s = redis_close s"
| "perform (Work tid t) s = worker_step tid t s"

definition run :: "call list \<Rightarrow> system \<Rightarrow> system" where
  "run calls s = fold perform calls s"

definition active_workers :: "system \<Rightarrow> nat" where
  "active_workers s = length (filter (\<lambda>w. pc w \<noteq> Finished) (threads s))"

text \<open>The state without its outputs: attributes, store and threads.\<close>

definition observable :: "system \<Rightarrow> system" where
  "observable s = s\<lparr>trace := []\<rparr>"

subsection \<open>Concrete systems\<close>

text \<open>
  A new instance (\<^verbatim>\<open>__init__\<close>) over an empty, healthy store; the same after a
  successful \<open>initialize_redis\<close> with the default arguments; and that one after
  \<open>redis_start_listening\<close> with the default handler.
\<close>

definition fresh_store :: store where
  "fresh_store =
     \<lparr>entries = [], last_generated = 0, faults = [], pong = True, node_max_entries = 100\<rparr>"

definition fresh_system :: system where
  "fresh_system = \<lparr>self = init_module, store = fresh_store, threads = [], trace = []\<rparr>"

definition connected_system :: system where
  "connected_system = snd (initialize_redis ''localhost'' 6379 0 fresh_system)"

definition started_system :: system where
  "started_system = redis_start_listening None connected_system"

definition idle :: tick where
  "idle = \<lparr>arrivals = []\<rparr>"

text \<open>
  Three entries appended while the listener's first read waits, and a handler that
  raises on the second of them only.
\<close>

definition three_arrive :: tick where
  "three_arrive = \<lparr>arrivals = [[(''n'', ''1'')], [(''n'', ''2'')], [(''n'', ''3'')]]\<rparr>"

definition raises_on_second :: handler where
  "raises_on_second m =
     ([], if m = [(''n'', ''2'')] then Some (OtherException ''ValueError'') else None)"

text \<open>What one delivery of the second entry to that handler writes.\<close>

definition second_error :: "effect list" where
  "second_error =
     [Print [(''n'', ''2'')],
      Log ERROR (Error_processing_message 2 (OtherException ''ValueError''))]"

section \<open>Properties\<close>

lemmas store_calls = next_fault_def connect_def ping_def xtrim_def xadd_def
  approximate_evicted_def

lemmas initialize_defs =
  initialize_redis_def initialize_except_def initialize_trim_def emit_def set_conn_def

subsection \<open>Connection manager\<close>

text \<open>
  C1. The claim: when the construction of the connection or the liveness probe raises
  a connection error, \<open>initialize_redis\<close> logs the failure and returns a null
  connection without raising. What the code does on these inputs: the
  \<^verbatim>\<open>except\<close> clause clears the handle and logs, and the call of \<^verbatim>\<open>xtrim\<close> that
  follows the \<^verbatim>\<open>try\<close> block is then made on \<^verbatim>\<open>None\<close>, so the caller receives an
  \<open>AttributeError\<close> instead of a null connection. This holds whether the first
  call into the client (the construction) or the second (the probe) raises.
\<close>

theorem initialize_redis_raises_AttributeError:
  "initialize_redis host port db (s\<lparr>store := (store s)\<lparr>faults := Some ConnectionError # fs\<rparr>\<rparr>) =
     (Inl AttributeError,
      s\<lparr>self := (self s)\<lparr>redis_host := Some host, redis_port := Some port,
                            redis_db := Some db, redis_conn := None\<rparr>,
        store := (store s)\<lparr>faults := fs\<rparr>,
        trace := trace s @ [Log DEBUG (Connecting_to_Redis host port db),
                            Log ERROR (Redis_connection_error ConnectionError)]\<rparr>)
   \<and> initialize_redis host port db
       (s\<lparr>store := (store s)\<lparr>faults := None # Some ConnectionError # fs\<rparr>\<rparr>) =
     (Inl AttributeError,
      s\<lparr>self := (self s)\<lparr>redis_host := Some host, redis_port := Some port,
                            redis_db := Some db, redis_conn := None\<rparr>,
        store := (store s)\<lparr>faults := fs\<rparr>,
        trace := trace s @ [Log DEBUG (Connecting_to_Redis host port db),
                            Log ERROR (Redis_connection_error ConnectionError)]\<rparr>)"
  by (simp add: initialize_defs store_calls)

text \<open>
  C2. The claim: after \<open>initialize_redis\<close> returns, a probe that reported failure
  leaves the stored handle null. What the code does when no call raises and the probe
  answers false: it logs \<^verbatim>\<open>Redis connection failed\<close>, keeps the handle it has just
  stored, trims the stream through it (approximately, as always) and returns it. The
  stored handle is the new connection, not null.
\<close>

theorem initialize_redis_keeps_failed_handle:
  "initialize_redis host port db (s\<lparr>store := (store s)\<lparr>faults := [], pong := False\<rparr>\<rparr>) =
     (Inr (Some (Redis host port db)),
      s\<lparr>self := (self s)\<lparr>redis_host := Some host, redis_port := Some port,
                            redis_db := Some db, redis_conn := Some (Redis host port db)\<rparr>,
        store := (store s)\<lparr>faults := [], pong := False,
           entries := drop (approximate_evicted (node_max_entries (store s))
                              (length (entries (store s))) (query_list_capacity (self s)))
                        (entries (store s))\<rparr>,
        trace := trace s @ [Log DEBUG (Connecting_to_Redis host port db),
                            Log ERROR Redis_connection_failed]\<rparr>)"
  by (simp add: initialize_defs store_calls Let_def)

lemma approximate_evicted_le:
  "approximate_evicted node len maxlen \<le> len - maxlen"
proof (cases "node = 0")
  case True
  then show ?thesis by (simp add: approximate_evicted_def)
next
  case False
  have "node * min 100 ((len - maxlen) div node) \<le> node * ((len - maxlen) div node)"
    by simp
  also have "\<dots> \<le> len - maxlen" by simp
  finally show ?thesis using False by (simp add: approximate_evicted_def)
qed

lemma approximate_evicted_within_node:
  assumes "0 < node" "(len - maxlen) div node \<le> 100"
  shows "len - approximate_evicted node len maxlen < maxlen + node"
proof -
  have ev: "approximate_evicted node len maxlen = node * ((len - maxlen) div node)"
    using assms by (simp add: approximate_evicted_def min_def)
  have split: "len - maxlen = node * ((len - maxlen) div node) + (len - maxlen) mod node"
    by simp
  have "(len - maxlen) mod node < node" using assms(1) by simp
  then show ?thesis using split unfolding ev by linarith
qed

text \<open>
  C9, as amended. Whenever \<open>initialize_redis\<close> returns a connection instead of
  raising, the stream has been trimmed approximately to \<open>query_list_capacity\<close>: what
  it holds at that moment is what it held before without a number of its oldest
  entries, evicted by whole macro nodes; the most recent \<open>query_list_capacity\<close>
  entries are all kept (all entries, if there were fewer); and when the excess is
  within the 100 nodes one call evicts, fewer than one node's worth of entries beyond
  the capacity remain. A new instance has capacity 1000.
\<close>

theorem initialize_redis_trims:
  assumes "initialize_redis host port db s = (Inr r, s')"
  shows "entries (store s') =
           drop (approximate_evicted (node_max_entries (store s)) (length (entries (store s)))
                   (query_list_capacity (self s)))
             (entries (store s))
       \<and> min (length (entries (store s))) (query_list_capacity (self s))
           \<le> length (entries (store s'))
       \<and> (0 < node_max_entries (store s)
            \<and> (length (entries (store s)) - query_list_capacity (self s))
                 div node_max_entries (store s) \<le> 100 \<longrightarrow>
           length (entries (store s'))
             < query_list_capacity (self s) + node_max_entries (store s))
       \<and> query_list_capacity init_module = 1000"
proof -
  let ?n = "length (entries (store s))"
  let ?C = "query_list_capacity (self s)"
  let ?ev = "approximate_evicted (node_max_entries (store s)) ?n ?C"
  have trimmed: "entries (store s') = drop ?ev (entries (store s))"
    using assms
    by (auto simp: initialize_defs store_calls Let_def
        split: list.splits option.splits if_splits sum.splits prod.splits)
  have len: "length (entries (store s')) = ?n - ?ev"
    by (simp add: trimmed)
  have kept: "min ?n ?C \<le> length (entries (store s'))"
    using approximate_evicted_le [of "node_max_entries (store s)" ?n ?C] len by linarith
  have near: "length (entries (store s')) < ?C + node_max_entries (store s)"
    if "0 < node_max_entries (store s)" "(?n - ?C) div node_max_entries (store s) \<le> 100"
    using approximate_evicted_within_node [OF that] len by simp
  from trimmed kept near show ?thesis by (simp add: init_module_def)
qed

theorem initialize_redis_trims_witness:
  "initialize_redis ''localhost'' 6379 0
     (fresh_system\<lparr>self := init_module\<lparr>query_list_capacity := 2\<rparr>,
                   store := fresh_store\<lparr>entries := [(1, [(''q'', ''a'')]), (2, [(''q'', ''b'')]),
                                                      (3, [(''q'', ''c'')]), (4, [(''q'', ''d'')]),
                                                      (5, [(''q'', ''e'')])],
                                          last_generated := 5, node_max_entries := 2\<rparr>\<rparr>) =
     (Inr (Some (Redis ''localhost'' 6379 0)),
      \<lparr>self = init_module\<lparr>redis_host := Some ''localhost'', redis_port := Some 6379,
                           redis_db := Some 0, redis_conn := Some (Redis ''localhost'' 6379 0),
                           query_list_capacity := 2\<rparr>,
       store = fresh_store\<lparr>entries := [(3, [(''q'', ''c'')]), (4, [(''q'', ''d'')]),
                                        (5, [(''q'', ''e'')])],
                            last_generated := 5, node_max_entries := 2\<rparr>,
       threads = [],
       trace = [Log DEBUG (Connecting_to_Redis ''localhost'' 6379 0)]\<rparr>)
   \<and> (0::nat) < 2 \<and> ((5::nat) - 2) div 2 \<le> 100
   \<and> min (5::nat) 2 \<le> 3 \<and> (3::nat) < 2 + 2"
proof -
  have run: "initialize_redis ''localhost'' 6379 0
     (fresh_system\<lparr>self := init_module\<lparr>query_list_capacity := 2\<rparr>,
                   store := fresh_store\<lparr>entries := [(1, [(''q'', ''a'')]), (2, [(''q'', ''b'')]),
                                                      (3, [(''q'', ''c'')]), (4, [(''q'', ''d'')]),
                                                      (5, [(''q'', ''e'')])],
                                          last_generated := 5, node_max_entries := 2\<rparr>\<rparr>) =
     (Inr (Some (Redis ''localhost'' 6379 0)),
      \<lparr>self = init_module\<lparr>redis_host := Some ''localhost'', redis_port := Some 6379,
                           redis_db := Some 0, redis_conn := Some (Redis ''localhost'' 6379 0),
                           query_list_capacity := 2\<rparr>,
       store = fresh_store\<lparr>entries := [(3, [(''q'', ''c'')]), (4, [(''q'', ''d'')]),
                                        (5, [(''q'', ''e'')])],
                            last_generated := 5, node_max_entries := 2\<rparr>,
       threads = [],
       trace = [Log DEBUG (Connecting_to_Redis ''localhost'' 6379 0)]\<rparr>)"
    by (simp add: initialize_defs store_calls Let_def fresh_system_def fresh_store_def
        init_module_def)
  from initialize_redis_trims [OF run] show ?thesis
    using run by simp
qed

text \<open>
  C9, as stated, fails. A stream of three entries on a server with the default node
  size, initialized with capacity 2, still holds its three entries when
  \<open>initialize_redis\<close> has returned its connection: one node holds them all, and
  evicting it would leave fewer than two. And nothing trims later: with capacity 1,
  two messages published after the initialization are both in the stream.
\<close>

theorem initialize_redis_leaves_more_than_capacity:
  "fst (initialize_redis ''localhost'' 6379 0
          (fresh_system\<lparr>self := init_module\<lparr>query_list_capacity := 2\<rparr>,
                        store := fresh_store\<lparr>entries := [(1, [(''q'', ''a'')]),
                                                           (2, [(''q'', ''b'')]),
                                                           (3, [(''q'', ''c'')])],
                                               last_generated := 3\<rparr>\<rparr>))
     = Inr (Some (Redis ''localhost'' 6379 0))
   \<and> entries (store (snd (initialize_redis ''localhost'' 6379 0
          (fresh_system\<lparr>self := init_module\<lparr>query_list_capacity := 2\<rparr>,
                        store := fresh_store\<lparr>entries := [(1, [(''q'', ''a'')]),
                                                           (2, [(''q'', ''b'')]),
                                                           (3, [(''q'', ''c'')])],
                                               last_generated := 3\<rparr>\<rparr>))))
     = [(1, [(''q'', ''a'')]), (2, [(''q'', ''b'')]), (3, [(''q'', ''c'')])]
   \<and> \<not> length [(1::nat, [(''q'', ''a'')]), (2, [(''q'', ''b'')]), (3, [(''q'', ''c'')])]
         \<le> (2::nat)
   \<and> entries (store (run [Initialize ''localhost'' 6379 0, Publish [(''q'', ''hello'')],
                           Publish [(''q'', ''world'')]]
                       (fresh_system\<lparr>self := init_module\<lparr>query_list_capacity := 1\<rparr>\<rparr>)))
     = [(1, [(''q'', ''hello'')]), (2, [(''q'', ''world'')])]"
  by (simp add: run_def initialize_defs store_calls Let_def fresh_system_def fresh_store_def
      init_module_def redis_add_message_stream_def append_entry_def)

subsection \<open>Publisher\<close>

text \<open>
  C3, as amended. With a null handle \<open>redis_add_message_stream\<close> fails with the
  \<open>AttributeError\<close> of the call on \<^verbatim>\<open>None\<close> (no error class of its own is raised,
  and nothing but the debug record is written); with a handle whose call into the
  client does not raise, the message becomes the newest entry of the stream, under the
  identifier the store generates, and that identifier is returned.
\<close>

theorem redis_add_message_stream_result:
  "(redis_conn (self s) = None \<longrightarrow>
      redis_add_message_stream m s =
        (Inl AttributeError, s\<lparr>trace := trace s @ [Log DEBUG (Add_message_stream m)]\<rparr>))
   \<and> (redis_conn (self s) = Some c \<and> fst (next_fault (store s)) = None \<longrightarrow>
      redis_add_message_stream m s =
        (Inr (Suc (last_generated (store s))),
         s\<lparr>store := (snd (next_fault (store s)))
                      \<lparr>entries := entries (store s) @ [(Suc (last_generated (store s)), m)],
                       last_generated := Suc (last_generated (store s))\<rparr>,
           trace := trace s @ [Log DEBUG (Add_message_stream m)]\<rparr>))"
  by (auto simp: redis_add_message_stream_def emit_def xadd_def append_entry_def next_fault_def
      split: list.splits option.splits)

theorem redis_add_message_stream_result_witness:
  "redis_conn (self fresh_system) = None
   \<and> fst (redis_add_message_stream [(''q'', ''hello'')] fresh_system) = Inl AttributeError
   \<and> redis_conn (self connected_system) = Some (Redis ''localhost'' 6379 0)
   \<and> fst (next_fault (store connected_system)) = None
   \<and> fst (redis_add_message_stream [(''q'', ''hello'')] connected_system) = Inr 1
   \<and> entries (store (snd (redis_add_message_stream [(''q'', ''hello'')] connected_system)))
       = [(1, [(''q'', ''hello'')])]"
  using redis_add_message_stream_result
          [where s = fresh_system and m = "[(''q'', ''hello'')]"
             and c = "Redis ''localhost'' 6379 0"]
        redis_add_message_stream_result
          [where s = connected_system and m = "[(''q'', ''hello'')]"
             and c = "Redis ''localhost'' 6379 0"]
  by (simp add: connected_system_def fresh_system_def fresh_store_def init_module_def
      initialize_defs store_calls)

text \<open>
  C3, as stated, fails on a new instance, whose handle is null: the call fails with
  \<open>AttributeError\<close>, which is not the \<^verbatim>\<open>NotConnectedError\<close> of the claim.
\<close>

theorem redis_add_message_stream_not_NotConnectedError:
  "fst (redis_add_message_stream [(''q'', ''hello'')] fresh_system) = Inl AttributeError
   \<and> fst (redis_add_message_stream [(''q'', ''hello'')] fresh_system)
       \<noteq> Inl (OtherException ''NotConnectedError'')"
  by (simp add: redis_add_message_stream_def fresh_system_def init_module_def emit_def)

subsection \<open>Listener loop\<close>

lemma entries_fold_append:
  "\<exists>ys. entries (fold append_entry ms w) = entries w @ ys"
proof (induction ms arbitrary: w)
  case Nil
  show ?case by simp
next
  case (Cons m ms)
  from Cons [of "append_entry m w"] show ?case
    by (auto simp: append_entry_def)
qed

lemma faults_fold_append: "faults (fold append_entry ms w) = faults w"
  by (induction ms arbitrary: w) (simp_all add: append_entry_def)

lemma connected_system_eq:
  "connected_system =
     \<lparr>self = init_module\<lparr>redis_host := Some ''localhost'', redis_port := Some 6379,
                          redis_db := Some 0, redis_conn := Some (Redis ''localhost'' 6379 0)\<rparr>,
      store = fresh_store, threads = [],
      trace = [Log DEBUG (Connecting_to_Redis ''localhost'' 6379 0)]\<rparr>"
  by (simp add: connected_system_def fresh_system_def fresh_store_def init_module_def
      initialize_defs store_calls)

lemmas listen_defs = listen_iteration_def listen_body_def listen_except_def dispatch_def
  xread_def next_fault_def emit_def set_conn_def set_running_def

lemma stuck_iteration:
  assumes "redis_conn (self s) = Some c" "redis_listener_running (self s)"
    "faults (store s) = []"
    "entries (store s) = (1, [(''n'', ''1'')]) # (2, [(''n'', ''2'')]) # rest"
  shows "listen_iteration raises_on_second t (After 1) s =
    (Continue (After 1),
     s\<lparr>store := fold append_entry (arrivals t) (store s), trace := trace s @ second_error\<rparr>)"
proof -
  obtain ys where ys: "entries (fold append_entry (arrivals t) (store s)) = entries (store s) @ ys"
    using entries_fold_append by blast
  have "store s\<lparr>faults := []\<rparr> = store s" using assms(3) by simp
  show ?thesis using assms ys
    by (simp add: listen_defs raises_on_second_def second_error_def Let_def)
qed

lemma stuck_loop:
  assumes "redis_conn (self s) = Some c" "redis_listener_running (self s)"
    "faults (store s) = []"
    "entries (store s) = (1, [(''n'', ''1'')]) # (2, [(''n'', ''2'')]) # rest"
  shows "\<exists>s'. listen_loop raises_on_second ts (After 1) s = (Continue (After 1), s')
     \<and> self s' = self s
     \<and> trace s' = trace s @ concat (replicate (length ts) second_error)"
  using assms
proof (induction ts arbitrary: s rest)
  case Nil
  then show ?case by simp
next
  case (Cons t ts)
  let ?s1 = "s\<lparr>store := fold append_entry (arrivals t) (store s), trace := trace s @ second_error\<rparr>"
  have it: "listen_iteration raises_on_second t (After 1) s = (Continue (After 1), ?s1)"
    using Cons.prems by (rule stuck_iteration)
  obtain ys where ys: "entries (fold append_entry (arrivals t) (store s)) = entries (store s) @ ys"
    using entries_fold_append by blast
  have "\<exists>s'. listen_loop raises_on_second ts (After 1) ?s1 = (Continue (After 1), s')
     \<and> self s' = self ?s1
     \<and> trace s' = trace ?s1 @ concat (replicate (length ts) second_error)"
    using Cons.prems ys
    by (intro Cons.IH [where rest = "rest @ ys"]) (simp_all add: faults_fold_append)
  then show ?case using it by auto
qed

lemma first_iteration:
  "listen_iteration raises_on_second three_arrive Dollar (set_running True connected_system) =
     (Continue (After 1),
      (set_running True connected_system)
        \<lparr>store := fresh_store\<lparr>entries := [(1, [(''n'', ''1'')]), (2, [(''n'', ''2'')]),
                                            (3, [(''n'', ''3'')])],
                                last_generated := 3\<rparr>,
         trace := trace connected_system @ [Print [(''n'', ''1'')]]\<rparr>)"
  by (simp add: connected_system_eq listen_defs raises_on_second_def three_arrive_def
      append_entry_def fresh_store_def stream_key_def Let_def)

lemma dispatch_step:
  "dispatch h (i, d) last_id out = (r, last_id', out') \<Longrightarrow>
     last_id' = last_id \<or> (last_id' = After i \<and> snd (h d) = None)"
  by (cases "h d") (auto simp: dispatch_def Let_def split: option.splits if_splits)

lemma dispatch_entries_cursor:
  "dispatch_entries h es last_id out = (r, last_id', out') \<Longrightarrow>
     last_id' = last_id \<or> (\<exists>(i, d) \<in> set es. last_id' = After i \<and> snd (h d) = None)"
proof (induction es arbitrary: last_id out)
  case Nil
  then show ?case by simp
next
  case (Cons e es)
  obtain i d where e: "e = (i, d)" by (cases e)
  obtain r1 l1 o1 where d1: "dispatch h (i, d) last_id out = (r1, l1, o1)"
    by (cases "dispatch h (i, d) last_id out")
  note st = dispatch_step [OF d1]
  show ?case
  proof (cases r1)
    case (Some x)
    then show ?thesis using Cons.prems d1 st e by auto
  next
    case None
    then have "dispatch_entries h es l1 o1 = (r, last_id', out')"
      using Cons.prems d1 e by simp
    from Cons.IH [OF this] show ?thesis using st e by auto
  qed
qed

lemma dispatch_messages_cursor:
  "dispatch_messages h ms last_id out = (r, last_id', out') \<Longrightarrow>
     last_id' = last_id
     \<or> (\<exists>(i, d) \<in> set (concat (map snd ms)). last_id' = After i \<and> snd (h d) = None)"
proof (induction ms arbitrary: last_id out)
  case Nil
  then show ?case by simp
next
  case (Cons m ms)
  obtain k es where m: "m = (k, es)" by (cases m)
  obtain r1 l1 o1 where d1: "dispatch_entries h es last_id out = (r1, l1, o1)"
    by (cases "dispatch_entries h es last_id out")
  note st = dispatch_entries_cursor [OF d1]
  show ?case
  proof (cases r1)
    case (Some x)
    then show ?thesis using Cons.prems d1 st m by auto
  next
    case None
    then have "dispatch_messages h ms l1 o1 = (r, last_id', out')"
      using Cons.prems d1 m by simp
    from Cons.IH [OF this] show ?thesis using st m by auto
  qed
qed

lemma xread_entries:
  "xread c last_id n t w = (Inr ms, w') \<Longrightarrow> set (concat (map snd ms)) \<subseteq> set (entries w')"
  by (auto simp: xread_def Let_def next_fault_def split: list.splits option.splits if_splits
      dest!: in_set_takeD)

lemma listen_except_store: "listen_except e s = (r, s') \<Longrightarrow> store s' = store s"
  by (auto simp: listen_except_def emit_def set_conn_def split: if_splits)

lemma listen_body_cursor:
  assumes "listen_body h t last_id s = (r, last_id', s')"
  shows "last_id' = last_id
     \<or> (\<exists>(i, d) \<in> set (entries (store s')). last_id' = After i \<and> snd (h d) = None)"
proof (cases "redis_conn (self s)")
  case None
  then show ?thesis using assms by (auto simp: listen_body_def split: prod.splits)
next
  case (Some c)
  obtain res w where x: "xread c last_id 1 t (store s) = (res, w)"
    by (cases "xread c last_id 1 t (store s)")
  show ?thesis
  proof (cases res)
    case (Inl e)
    then show ?thesis using assms Some x by (auto simp: listen_body_def split: prod.splits)
  next
    case (Inr ms)
    obtain r1 l1 o1 where d: "dispatch_messages h ms last_id (trace s) = (r1, l1, o1)"
      by (cases "dispatch_messages h ms last_id (trace s)")
    have l: "last_id' = l1" and st: "store s' = w"
      using assms Some x Inr d
      by (auto simp: listen_body_def split: prod.splits option.splits dest: listen_except_store)
    from xread_entries x Inr have "set (concat (map snd ms)) \<subseteq> set (entries w)" by blast
    then show ?thesis using dispatch_messages_cursor [OF d] l st by blast
  qed
qed

lemma listen_iteration_cursor:
  assumes "listen_iteration h t last_id s = (Continue last_id', s')"
  shows "last_id' = last_id
     \<or> (\<exists>(i, d) \<in> set (entries (store s')). last_id' = After i \<and> snd (h d) = None)"
  using assms
  by (auto simp: listen_iteration_def split: if_splits prod.splits option.splits
      dest!: listen_body_cursor)

text \<open>
  C4. For every entry dispatched in a pass of the loop: if the handler returns, the
  cursor becomes the identifier of that entry; if the handler raises, the cursor keeps
  its value, and for an \<^verbatim>\<open>Exception\<close> the error is logged with the identifier and
  nothing escapes. So a cursor that was elsewhere is on the entry afterwards exactly
  when the handler returned without error. Hence after any pass of the loop the
  cursor either has its previous value or is on an entry of the stream on which the
  handler returned without error.
\<close>

theorem dispatch_cursor:
  "(snd (h d) = None \<longrightarrow>
      dispatch h (i, d) last_id out = (None, After i, out @ [Print d] @ fst (h d)))
   \<and> (snd (h d) = Some e \<longrightarrow> fst (snd (dispatch h (i, d) last_id out)) = last_id)
   \<and> (snd (h d) = Some e \<and> is_Exception e \<longrightarrow>
      dispatch h (i, d) last_id out =
        (None, last_id, out @ [Print d] @ fst (h d) @ [Log ERROR (Error_processing_message i e)]))
   \<and> (last_id \<noteq> After i \<longrightarrow>
      (fst (snd (dispatch h (i, d) last_id out)) = After i) = (snd (h d) = None))
   \<and> (listen_iteration h t last_id s = (Continue last_id', s') \<longrightarrow>
      last_id' = last_id
      \<or> (\<exists>(j, m) \<in> set (entries (store s')). last_id' = After j \<and> snd (h m) = None))"
proof -
  have entry:
    "(snd (h d) = None \<longrightarrow>
      dispatch h (i, d) last_id out = (None, After i, out @ [Print d] @ fst (h d)))
   \<and> (snd (h d) = Some e \<longrightarrow> fst (snd (dispatch h (i, d) last_id out)) = last_id)
   \<and> (snd (h d) = Some e \<and> is_Exception e \<longrightarrow>
      dispatch h (i, d) last_id out =
        (None, last_id, out @ [Print d] @ fst (h d) @ [Log ERROR (Error_processing_message i e)]))
   \<and> (last_id \<noteq> After i \<longrightarrow>
      (fst (snd (dispatch h (i, d) last_id out)) = After i) = (snd (h d) = None))"
    by (cases "h d") (auto simp: dispatch_def Let_def split: option.splits)
  have pass:
    "listen_iteration h t last_id s = (Continue last_id', s') \<longrightarrow>
      last_id' = last_id
      \<or> (\<exists>(j, m) \<in> set (entries (store s')). last_id' = After j \<and> snd (h m) = None)"
    using listen_iteration_cursor by blast
  from entry pass show ?thesis by (intro conjI) (elim conjE, assumption)+
qed

theorem dispatch_cursor_witness:
  "snd (raises_on_second [(''n'', ''1'')]) = None
   \<and> dispatch raises_on_second (1, [(''n'', ''1'')]) Dollar [] =
       (None, After 1, [Print [(''n'', ''1'')]])
   \<and> snd (raises_on_second [(''n'', ''2'')]) = Some (OtherException ''ValueError'')
   \<and> is_Exception (OtherException ''ValueError'')
   \<and> dispatch raises_on_second (2, [(''n'', ''2'')]) (After 1) [] =
       (None, After 1,
        [Print [(''n'', ''2'')],
         Log ERROR (Error_processing_message 2 (OtherException ''ValueError''))])
   \<and> After 1 \<noteq> After 2
   \<and> fst (snd (dispatch raises_on_second (2, [(''n'', ''2'')]) (After 1) [])) \<noteq> After 2
   \<and> fst (listen_iteration raises_on_second three_arrive Dollar
            (set_running True connected_system)) = Continue (After 1)
   \<and> (1, [(''n'', ''1'')])
       \<in> set (entries (store (snd (listen_iteration raises_on_second three_arrive Dollar
                                      (set_running True connected_system)))))"
  using dispatch_cursor
          [where h = raises_on_second and d = "[(''n'', ''1'')]" and i = 1 and last_id = Dollar
             and out = "[]" and t = three_arrive and s = "set_running True connected_system"
             and last_id' = "After 1"
             and s' = "snd (listen_iteration raises_on_second three_arrive Dollar
                              (set_running True connected_system))"]
        dispatch_cursor
          [where h = raises_on_second and d = "[(''n'', ''2'')]" and i = 2
             and last_id = "After 1" and out = "[]" and e = "OtherException ''ValueError''"]
  by (simp add: raises_on_second_def first_iteration fresh_store_def)

text \<open>
  C5, as amended. Three entries arrive while a running listener waits in its first
  read, and the handler raises on the second only. The first entry is delivered; every
  later pass reads the second entry again, hands it to the handler and logs its error,
  because the cursor stays on the first entry and a read asks for one entry; the third
  entry is not delivered, however long this goes on; the loop does not stop.
\<close>

theorem listener_redelivers_second:
  "fst (redis_listen_query_stream raises_on_second Dollar (three_arrive # ts) connected_system)
     = Continue (After 1)
   \<and> redis_listener_running
       (self (snd (redis_listen_query_stream raises_on_second Dollar (three_arrive # ts)
                     connected_system)))
   \<and> trace (snd (redis_listen_query_stream raises_on_second Dollar (three_arrive # ts)
                   connected_system))
     = trace connected_system @ [Print [(''n'', ''1'')]]
         @ concat (replicate (length ts) second_error)
   \<and> Print [(''n'', ''3'')]
       \<notin> set (trace (snd (redis_listen_query_stream raises_on_second Dollar (three_arrive # ts)
                            connected_system)))"
proof -
  let ?s1 = "(set_running True connected_system)
        \<lparr>store := fresh_store\<lparr>entries := [(1, [(''n'', ''1'')]), (2, [(''n'', ''2'')]),
                                            (3, [(''n'', ''3'')])],
                                last_generated := 3\<rparr>,
         trace := trace connected_system @ [Print [(''n'', ''1'')]]\<rparr>"
  have "\<exists>s'. listen_loop raises_on_second ts (After 1) ?s1 = (Continue (After 1), s')
     \<and> self s' = self ?s1
     \<and> trace s' = trace ?s1 @ concat (replicate (length ts) second_error)"
    by (rule stuck_loop [where c = "Redis ''localhost'' 6379 0" and rest = "[(3, [(''n'', ''3'')])]"])
       (simp_all add: connected_system_eq set_running_def fresh_store_def)
  then obtain s' where s': "listen_loop raises_on_second ts (After 1) ?s1 = (Continue (After 1), s')"
    "self s' = self ?s1"
    "trace s' = trace ?s1 @ concat (replicate (length ts) second_error)"
    by blast
  have res: "redis_listen_query_stream raises_on_second Dollar (three_arrive # ts) connected_system
      = (Continue (After 1), s')"
    by (simp only: redis_listen_query_stream_def listen_loop.simps first_iteration s'(1)
        prod.case progress.case)
  have "Print [(''n'', ''3'')] \<notin> set (concat (replicate (length ts) second_error))"
    by (auto simp: second_error_def)
  then show ?thesis
    using res s'(2,3) by (simp add: set_running_def connected_system_eq)
qed

text \<open>
  C5, as stated, fails: after the read that brings the three entries and three more
  passes, the handler has received the first entry once and the second three times,
  and the third not at all; the cursor is on the first entry.
\<close>

theorem listener_third_entry_not_delivered:
  "fst (redis_listen_query_stream raises_on_second Dollar [three_arrive, idle, idle, idle]
          connected_system) = Continue (After 1)
   \<and> trace (snd (redis_listen_query_stream raises_on_second Dollar [three_arrive, idle, idle, idle]
                   connected_system))
     = [Log DEBUG (Connecting_to_Redis ''localhost'' 6379 0),
        Print [(''n'', ''1'')],
        Print [(''n'', ''2'')],
        Log ERROR (Error_processing_message 2 (OtherException ''ValueError'')),
        Print [(''n'', ''2'')],
        Log ERROR (Error_processing_message 2 (OtherException ''ValueError'')),
        Print [(''n'', ''2'')],
        Log ERROR (Error_processing_message 2 (OtherException ''ValueError''))]"
  by (simp add: redis_listen_query_stream_def connected_system_eq listen_defs
      raises_on_second_def three_arrive_def idle_def append_entry_def fresh_store_def
      stream_key_def Let_def)

lemma disconnected_loop:
  assumes "redis_conn (self s) = None" "redis_listener_running (self s)"
  shows "listen_loop h ts last_id s =
     (Continue last_id,
      s\<lparr>trace := trace s
           @ concat (replicate (length ts) [Log ERROR (Unexpected_error AttributeError), Sleep 1])\<rparr>)"
  using assms
proof (induction ts arbitrary: s)
  case Nil
  then show ?case by simp
next
  case (Cons t ts)
  let ?s1 = "s\<lparr>trace := trace s @ [Log ERROR (Unexpected_error AttributeError), Sleep 1]\<rparr>"
  have it: "listen_iteration h t last_id s = (Continue last_id, ?s1)"
    using Cons.prems by (simp add: listen_defs)
  have "listen_loop h ts last_id ?s1 =
     (Continue last_id,
      ?s1\<lparr>trace := trace ?s1
           @ concat (replicate (length ts) [Log ERROR (Unexpected_error AttributeError), Sleep 1])\<rparr>)"
    using Cons.prems by (intro Cons.IH) simp_all
  then show ?case using it by simp
qed

text \<open>
  C6. The claim: after a connection error in the blocking read the loop logs, clears
  the handle, sleeps 5 seconds, retries, and later passes reconnect and resume
  reading. What the code does: the pass with the error logs, sleeps 5 seconds and
  clears the handle, and the loop goes on; but no pass ever stores a new handle, so
  each later pass fails in \<^verbatim>\<open>self.redis.xread\<close> with \<open>AttributeError\<close>, which is
  logged as an unexpected error and slept on for 1 second. After any number of passes
  the handle is still null and the store has not been read.
\<close>

theorem listener_never_reconnects:
  "listen_loop h (t # ts) last_id
     (s\<lparr>self := (self s)\<lparr>redis_conn := Some c, redis_listener_running := True\<rparr>,
        store := (store s)\<lparr>faults := Some ConnectionError # fs\<rparr>\<rparr>) =
     (Continue last_id,
      s\<lparr>self := (self s)\<lparr>redis_conn := None, redis_listener_running := True\<rparr>,
        store := (store s)\<lparr>faults := fs\<rparr>,
        trace := trace s @ [Log ERROR (Redis_connection_error ConnectionError), Sleep 5]
           @ concat (replicate (length ts) [Log ERROR (Unexpected_error AttributeError), Sleep 1])\<rparr>)"
proof -
  let ?s0 = "s\<lparr>self := (self s)\<lparr>redis_conn := Some c, redis_listener_running := True\<rparr>,
        store := (store s)\<lparr>faults := Some ConnectionError # fs\<rparr>\<rparr>"
  let ?s1 = "s\<lparr>self := (self s)\<lparr>redis_conn := None, redis_listener_running := True\<rparr>,
        store := (store s)\<lparr>faults := fs\<rparr>,
        trace := trace s @ [Log ERROR (Redis_connection_error ConnectionError), Sleep 5]\<rparr>"
  have it: "listen_iteration h t last_id ?s0 = (Continue last_id, ?s1)"
    by (simp add: listen_defs)
  have "listen_loop h ts last_id ?s1 =
     (Continue last_id,
      ?s1\<lparr>trace := trace ?s1
           @ concat (replicate (length ts) [Log ERROR (Unexpected_error AttributeError), Sleep 1])\<rparr>)"
    by (rule disconnected_loop) simp_all
  then show ?thesis using it by simp
qed

subsection \<open>Lifecycle controller\<close>

text \<open>What a pass of the loop and a step of a thread leave alone.\<close>

lemma listen_except_frame:
  "listen_except e s = (r, s') \<Longrightarrow>
     threads s' = threads s
     \<and> redis_listener_thread (self s') = redis_listener_thread (self s)
     \<and> redis_listener_running (self s') = redis_listener_running (self s)"
  by (auto simp: listen_except_def emit_def set_conn_def split: if_splits)

lemma listen_body_frame:
  "listen_body h t last_id s = (r, last_id', s') \<Longrightarrow>
     threads s' = threads s
     \<and> redis_listener_thread (self s') = redis_listener_thread (self s)
     \<and> redis_listener_running (self s') = redis_listener_running (self s)"
  by (auto simp: listen_body_def split: option.splits prod.splits sum.splits
      dest!: listen_except_frame)

lemma listen_iteration_frame:
  "listen_iteration h t last_id s = (r, s') \<Longrightarrow>
     threads s' = threads s
     \<and> redis_listener_thread (self s') = redis_listener_thread (self s)
     \<and> redis_listener_running (self s') = redis_listener_running (self s)"
  by (auto simp: listen_iteration_def split: if_splits option.splits prod.splits
      dest!: listen_body_frame)

text \<open>What one step of a thread does to the thread table and the handle.\<close>

lemma worker_step_frame:
  "length (threads (worker_step tid t s)) = length (threads s)
   \<and> redis_listener_thread (self (worker_step tid t s)) = redis_listener_thread (self s)
   \<and> (\<forall>i < length (threads s).
        pc (threads (worker_step tid t s) ! i) \<noteq> Finished \<longrightarrow> pc (threads s ! i) \<noteq> Finished)"
proof (cases "tid < length (threads s)")
  case False
  then show ?thesis by (simp add: worker_step_def)
next
  case True
  define s0 where "s0 = (if pc (threads s ! tid) = Spawned then thread_entry tid s else s)"
  have s0: "length (threads s0) = length (threads s)"
    "redis_listener_thread (self s0) = redis_listener_thread (self s)"
    "\<forall>i < length (threads s). pc (threads s0 ! i) \<noteq> Finished \<longrightarrow> pc (threads s ! i) \<noteq> Finished"
    using True
    by (auto simp: s0_def thread_entry_def set_pc_def set_running_def nth_list_update
        split: if_splits)
  show ?thesis
  proof (cases "pc (threads s0 ! tid)")
    case (Listening last_id)
    obtain r s' where it: "listen_iteration (handler (threads s0 ! tid)) t last_id s0 = (r, s')"
      by (cases "listen_iteration (handler (threads s0 ! tid)) t last_id s0")
    note fr = listen_iteration_frame [OF it]
    have ws: "worker_step tid t s = listener_wrapper_end tid r s'"
      using True Listening it by (simp add: worker_step_def s0_def [symmetric])
    show ?thesis
      using s0 fr True Listening unfolding ws
      by (cases r)
         (auto simp: listener_wrapper_end_def set_pc_def set_running_def emit_def
            nth_list_update split: if_splits)
  next
    case Spawned
    then show ?thesis using True s0 by (simp add: worker_step_def s0_def [symmetric])
  next
    case Finished
    then show ?thesis using True s0 by (simp add: worker_step_def s0_def [symmetric])
  qed
qed

lemma worker_step_finished:
  "\<not> is_alive tid s \<Longrightarrow> worker_step tid t s = s"
  by (auto simp: worker_step_def is_alive_def)

lemma worker_step_finishes:
  assumes "is_alive tid s" "\<not> is_alive tid (worker_step tid t s)"
  shows "\<not> redis_listener_running (self (worker_step tid t s))"
proof -
  have True: "tid < length (threads s)" using assms(1) by (simp add: is_alive_def)
  define s0 where "s0 = (if pc (threads s ! tid) = Spawned then thread_entry tid s else s)"
  have len0: "length (threads s0) = length (threads s)"
    by (auto simp: s0_def thread_entry_def set_pc_def set_running_def)
  have "pc (threads s0 ! tid) \<noteq> Finished \<and> pc (threads s0 ! tid) \<noteq> Spawned"
    using assms(1) True
    by (auto simp: s0_def thread_entry_def set_pc_def set_running_def is_alive_def)
  then obtain last_id where Listening: "pc (threads s0 ! tid) = Listening last_id"
    by (cases "pc (threads s0 ! tid)") auto
  obtain r s' where it: "listen_iteration (handler (threads s0 ! tid)) t last_id s0 = (r, s')"
    by (cases "listen_iteration (handler (threads s0 ! tid)) t last_id s0")
  note fr = listen_iteration_frame [OF it]
  have ws: "worker_step tid t s = listener_wrapper_end tid r s'"
    using True Listening it by (simp add: worker_step_def s0_def [symmetric])
  show ?thesis
    using assms(2) fr True len0 unfolding ws
    by (cases r)
       (auto simp: listener_wrapper_end_def set_pc_def set_running_def emit_def is_alive_def)
qed

lemma run_worker_frame:
  "length (threads (run_worker tid ts s)) = length (threads s)
   \<and> redis_listener_thread (self (run_worker tid ts s)) = redis_listener_thread (self s)
   \<and> (\<forall>i < length (threads s).
        pc (threads (run_worker tid ts s) ! i) \<noteq> Finished \<longrightarrow> pc (threads s ! i) \<noteq> Finished)"
proof (induction ts arbitrary: s)
  case Nil
  show ?case by (simp add: run_worker_def)
next
  case (Cons t ts)
  have eq: "run_worker tid (t # ts) s = run_worker tid ts (worker_step tid t s)"
    by (simp add: run_worker_def)
  show ?case
    unfolding eq using Cons [of "worker_step tid t s"] worker_step_frame [of tid t s]
    by auto
qed

lemma run_worker_finishes:
  assumes "is_alive tid s" "\<not> is_alive tid (run_worker tid ts s)"
  shows "\<not> redis_listener_running (self (run_worker tid ts s))"
  using assms
proof (induction ts arbitrary: s)
  case Nil
  then show ?case by (simp add: run_worker_def)
next
  case (Cons t ts)
  have eq: "run_worker tid (t # ts) s = run_worker tid ts (worker_step tid t s)"
    by (simp add: run_worker_def)
  show ?case
  proof (cases "is_alive tid (worker_step tid t s)")
    case True
    then show ?thesis using Cons.IH [of "worker_step tid t s"] Cons.prems(2) by (simp add: eq)
  next
    case False
    have "run_worker tid ts (worker_step tid t s) = worker_step tid t s"
      using False by (induction ts) (simp_all add: run_worker_def worker_step_finished)
    then show ?thesis
      using worker_step_finishes [OF Cons.prems(1) False] by (simp add: eq)
  qed
qed

lemma set_running_idem: "set_running b (set_running b' s) = set_running b s"
  by (simp add: set_running_def)

lemma set_running_same:
  "redis_listener_running (self s) = b \<Longrightarrow> set_running b s = s"
  by (simp add: set_running_def)

lemma listener_alive_emit [simp]: "listener_alive (emit os s) = listener_alive s"
  by (simp add: listener_alive_def is_alive_def emit_def split: option.splits)

lemma stop_not_alive_flag:
  assumes "\<not> listener_alive (redis_stop_listening ts s)"
  shows "\<not> redis_listener_running (self (redis_stop_listening ts s))"
proof (cases "redis_listener_thread (self s)")
  case None
  then show ?thesis
    by (simp add: redis_stop_listening_def set_running_def emit_def)
next
  case (Some tid)
  let ?s1 = "set_running False s"
  have h1: "redis_listener_thread (self ?s1) = Some tid"
    using Some by (simp add: set_running_def)
  show ?thesis
  proof (cases "is_alive tid ?s1")
    case False
    then show ?thesis using h1
      by (simp add: redis_stop_listening_def Let_def) (simp add: set_running_def emit_def)
  next
    case True
    let ?s' = "run_worker tid ts ?s1"
    have h': "redis_listener_thread (self ?s') = Some tid"
      using run_worker_frame [of tid ts ?s1] h1 by simp
    have res: "redis_stop_listening ts s =
        emit [Log INFO Listener_stopped]
          (if listener_alive ?s' then emit [Log WARNING Listener_did_not_stop_gracefully] ?s'
           else ?s')"
      using True h1 by (simp add: redis_stop_listening_def Let_def join_def)
    have "\<not> listener_alive ?s'" using assms unfolding res by (simp split: if_splits)
    then have dead: "\<not> is_alive tid ?s'" using h' by (simp add: listener_alive_def)
    have "\<not> redis_listener_running (self ?s')"
      using True dead by (rule run_worker_finishes)
    then show ?thesis using \<open>\<not> listener_alive ?s'\<close> unfolding res by (simp add: emit_def)
  qed
qed

lemma stop_when_not_alive:
  assumes "\<not> listener_alive s" "\<not> redis_listener_running (self s)"
  shows "redis_stop_listening ts s = emit [Log INFO Listener_stopped] s"
proof -
  have "set_running False s = s" using assms(2) by (simp add: set_running_same)
  then show ?thesis using assms(1)
    by (auto simp: redis_stop_listening_def Let_def listener_alive_def split: option.splits)
qed

lemma stop_without_progress:
  assumes "\<not> redis_listener_running (self s)"
  shows "observable (redis_stop_listening [] s) = observable s"
proof -
  have "set_running False s = s" using assms by (simp add: set_running_same)
  then show ?thesis
    by (simp add: redis_stop_listening_def Let_def join_def run_worker_def observable_def
        emit_def split: option.splits)
qed

lemma started_system_eq:
  "started_system =
     \<lparr>self = init_module\<lparr>redis_host := Some ''localhost'', redis_port := Some 6379,
                          redis_db := Some 0, redis_conn := Some (Redis ''localhost'' 6379 0),
                          redis_listener_thread := Some 0\<rparr>,
      store = fresh_store,
      threads = [\<lparr>handler = redis_consume_message_stream, pc = Spawned\<rparr>],
      trace = [Log DEBUG (Connecting_to_Redis ''localhost'' 6379 0),
               Log INFO Started_listener_thread]\<rparr>"
  by (simp add: started_system_def connected_system_eq redis_start_listening_def
      listener_alive_def emit_def init_module_def)

lemmas stop_defs = redis_stop_listening_def listener_alive_def is_alive_def join_def
  run_worker_def emit_def set_running_def

lemmas worker_defs = worker_step_def thread_entry_def set_pc_def listener_wrapper_end_def

text \<open>
  C10. \<open>__redis_listen_query_stream\<close> sets the running flag before the first test
  of the loop, whatever the flag was: the run does not depend on the earlier value,
  and after a cleared flag the first pass through the body is made all the same. For
  a thread that has been started but has not yet entered the listener, a stop request
  (whose wait sees no progress of the thread) leaves the flag cleared, and the thread's
  entry then sets it again and arrives at the head of the loop.
\<close>

theorem listener_entry_sets_flag:
  "redis_listen_query_stream h last_id ts (set_running b s) =
     redis_listen_query_stream h last_id ts (set_running True s)
   \<and> redis_listen_query_stream h last_id (t # ts) (set_running False s) =
       (case listen_body h t last_id (set_running True s) of
          (None, last_id', s') \<Rightarrow> listen_loop h ts last_id' s'
        | (Some e, _, s') \<Rightarrow> (Raise e, s'))
   \<and> (tid < length (threads s) \<and> pc (threads s ! tid) = Spawned \<longrightarrow>
        \<not> redis_listener_running (self (redis_stop_listening [] s))
        \<and> redis_listener_running (self (thread_entry tid (redis_stop_listening [] s)))
        \<and> pc (threads (thread_entry tid (redis_stop_listening [] s)) ! tid) = Listening Dollar)"
proof -
  have a: "redis_listen_query_stream h last_id ts (set_running b s) =
     redis_listen_query_stream h last_id ts (set_running True s)"
    by (simp add: redis_listen_query_stream_def set_running_idem)
  have b: "redis_listen_query_stream h last_id (t # ts) (set_running False s) =
       (case listen_body h t last_id (set_running True s) of
          (None, last_id', s') \<Rightarrow> listen_loop h ts last_id' s'
        | (Some e, _, s') \<Rightarrow> (Raise e, s'))"
    by (simp add: redis_listen_query_stream_def set_running_idem listen_iteration_def
        set_running_def split: prod.splits option.splits)
  have c: "tid < length (threads s) \<and> pc (threads s ! tid) = Spawned \<longrightarrow>
        \<not> redis_listener_running (self (redis_stop_listening [] s))
        \<and> redis_listener_running (self (thread_entry tid (redis_stop_listening [] s)))
        \<and> pc (threads (thread_entry tid (redis_stop_listening [] s)) ! tid) = Listening Dollar"
    by (auto simp: stop_defs thread_entry_def set_pc_def Let_def split: option.splits)
  from a b c show ?thesis by blast
qed

theorem listener_entry_sets_flag_witness:
  "0 < length (threads started_system) \<and> pc (threads started_system ! 0) = Spawned
   \<and> \<not> redis_listener_running (self (redis_stop_listening [] started_system))
   \<and> redis_listener_running (self (thread_entry 0 (redis_stop_listening [] started_system)))
   \<and> pc (threads (thread_entry 0 (redis_stop_listening [] started_system)) ! 0) = Listening Dollar
   \<and> fst (redis_listen_query_stream redis_consume_message_stream Dollar [idle]
            (set_running False connected_system)) = Continue Dollar"
  using listener_entry_sets_flag
          [where s = started_system and tid = 0]
        listener_entry_sets_flag
          [where s = connected_system and h = redis_consume_message_stream and last_id = Dollar
             and t = idle and ts = "[]"]
  by (simp add: started_system_eq connected_system_eq listen_body_def xread_def next_fault_def
       idle_def fresh_store_def set_running_def init_module_def)

text \<open>
  C7, as amended. \<open>redis_close\<close> is idempotent in every state. Neither operation
  has an error result. A second \<open>redis_stop_listening\<close> in a row changes nothing
  but the outputs (its log records are written again) when the listener thread is no
  longer alive after the first call, whatever happens during the second wait; and
  when the running flag is still cleared after the first call and the thread makes no
  progress during the second wait.
\<close>

theorem close_stop_idempotent:
  "redis_close (redis_close s) = redis_close s
   \<and> (\<not> listener_alive (redis_stop_listening ts s) \<longrightarrow>
        observable (redis_stop_listening ts' (redis_stop_listening ts s)) =
          observable (redis_stop_listening ts s))
   \<and> (\<not> redis_listener_running (self (redis_stop_listening ts s)) \<longrightarrow>
        observable (redis_stop_listening [] (redis_stop_listening ts s)) =
          observable (redis_stop_listening ts s))"
proof -
  have a: "redis_close (redis_close s) = redis_close s"
    by (simp add: redis_close_def set_conn_def split: option.splits)
  have b: "observable (redis_stop_listening ts' (redis_stop_listening ts s)) =
          observable (redis_stop_listening ts s)"
    if "\<not> listener_alive (redis_stop_listening ts s)"
    using stop_when_not_alive [OF that stop_not_alive_flag [OF that]]
    by (simp add: observable_def emit_def)
  from a b stop_without_progress show ?thesis by blast
qed

theorem close_stop_idempotent_witness:
  "redis_close (redis_close connected_system) = redis_close connected_system
   \<and> redis_conn (self (redis_close connected_system)) = None
   \<and> \<not> listener_alive (redis_stop_listening [idle] (worker_step 0 idle started_system))
   \<and> observable (redis_stop_listening [idle]
         (redis_stop_listening [idle] (worker_step 0 idle started_system))) =
       observable (redis_stop_listening [idle] (worker_step 0 idle started_system))
   \<and> \<not> redis_listener_running
         (self (redis_stop_listening [] (worker_step 0 idle started_system)))
   \<and> observable (redis_stop_listening []
         (redis_stop_listening [] (worker_step 0 idle started_system))) =
       observable (redis_stop_listening [] (worker_step 0 idle started_system))"
  using close_stop_idempotent
          [where s = connected_system]
        close_stop_idempotent
          [where s = "worker_step 0 idle started_system" and ts = "[idle]" and ts' = "[idle]"]
        close_stop_idempotent
          [where s = "worker_step 0 idle started_system" and ts = "[]"]
  by (simp add: connected_system_eq started_system_eq stop_defs worker_defs listen_defs
      idle_def fresh_store_def init_module_def Let_def redis_close_def)

lemma stop_after_start:
  "redis_stop_listening [idle] started_system =
     \<lparr>self = init_module\<lparr>redis_host := Some ''localhost'', redis_port := Some 6379,
                          redis_db := Some 0, redis_conn := Some (Redis ''localhost'' 6379 0),
                          redis_listener_running := True,
                          redis_listener_thread := Some 0, redis_listener_loop := Some 0\<rparr>,
      store = fresh_store,
      threads = [\<lparr>handler = redis_consume_message_stream, pc = Listening Dollar\<rparr>],
      trace = [Log DEBUG (Connecting_to_Redis ''localhost'' 6379 0),
               Log INFO Started_listener_thread,
               Log WARNING Listener_did_not_stop_gracefully,
               Log INFO Listener_stopped]\<rparr>"
  by (simp add: started_system_eq stop_defs worker_defs listen_defs idle_def fresh_store_def
        init_module_def Let_def)

lemma stop_twice_after_start:
  "redis_stop_listening [idle] (redis_stop_listening [idle] started_system) =
     \<lparr>self = init_module\<lparr>redis_host := Some ''localhost'', redis_port := Some 6379,
                          redis_db := Some 0, redis_conn := Some (Redis ''localhost'' 6379 0),
                          redis_listener_running := False,
                          redis_listener_thread := Some 0, redis_listener_loop := Some 0\<rparr>,
      store = fresh_store,
      threads = [\<lparr>handler = redis_consume_message_stream, pc = Finished\<rparr>],
      trace = [Log DEBUG (Connecting_to_Redis ''localhost'' 6379 0),
               Log INFO Started_listener_thread,
               Log WARNING Listener_did_not_stop_gracefully,
               Log INFO Listener_stopped,
               Log INFO Listener_stopped]\<rparr>"
  unfolding stop_after_start
  by (simp add: stop_defs worker_defs listen_defs idle_def fresh_store_def
        init_module_def Let_def)

text \<open>
  C7, as stated for every state, fails for \<open>redis_stop_listening\<close> right after
  \<open>redis_start_listening\<close>: the new thread enters the listener during the wait of
  the first call and sets the flag, so the first call returns with the flag set and
  the thread alive. The second call clears the flag again, whether or not the thread
  makes progress during its wait; if it does, the thread finds the flag cleared and
  terminates.
\<close>

theorem stop_not_idempotent_before_entry:
  "redis_listener_running (self (redis_stop_listening [idle] started_system))
   \<and> listener_alive (redis_stop_listening [idle] started_system)
   \<and> \<not> redis_listener_running
         (self (redis_stop_listening [] (redis_stop_listening [idle] started_system)))
   \<and> observable (redis_stop_listening [] (redis_stop_listening [idle] started_system))
       \<noteq> observable (redis_stop_listening [idle] started_system)
   \<and> \<not> redis_listener_running
         (self (redis_stop_listening [idle] (redis_stop_listening [idle] started_system)))
   \<and> \<not> listener_alive (redis_stop_listening [idle] (redis_stop_listening [idle] started_system))
   \<and> observable (redis_stop_listening [idle] (redis_stop_listening [idle] started_system))
       \<noteq> observable (redis_stop_listening [idle] started_system)"
proof -
  have a: "redis_listener_running (self (redis_stop_listening [idle] started_system))"
    and a': "listener_alive (redis_stop_listening [idle] started_system)"
    by (simp_all add: stop_after_start listener_alive_def is_alive_def)
  have b: "\<not> redis_listener_running
         (self (redis_stop_listening [] (redis_stop_listening [idle] started_system)))"
    by (simp add: redis_stop_listening_def join_def run_worker_def set_running_def emit_def
        listener_alive_def Let_def split: option.splits)
  have c: "\<not> redis_listener_running
         (self (redis_stop_listening [idle] (redis_stop_listening [idle] started_system)))"
    and c': "\<not> listener_alive
         (redis_stop_listening [idle] (redis_stop_listening [idle] started_system))"
    by (simp_all add: stop_twice_after_start listener_alive_def is_alive_def)
  have d: "self (observable (redis_stop_listening [] (redis_stop_listening [idle] started_system)))
       \<noteq> self (observable (redis_stop_listening [idle] started_system))"
    using a b by (auto simp: observable_def)
  have e: "self (observable (redis_stop_listening [idle]
                (redis_stop_listening [idle] started_system)))
       \<noteq> self (observable (redis_stop_listening [idle] started_system))"
    using a c by (auto simp: observable_def)
  from d e have "observable (redis_stop_listening [] (redis_stop_listening [idle] started_system))
       \<noteq> observable (redis_stop_listening [idle] started_system)"
    "observable (redis_stop_listening [idle] (redis_stop_listening [idle] started_system))
       \<noteq> observable (redis_stop_listening [idle] started_system)"
    by auto
  with a a' b c c' show ?thesis by simp
qed

text \<open>
  The invariant behind the single listener: a thread that has not terminated is the
  one the instance's handle names.
\<close>

lemma at_most_one:
  "(\<forall>i < length xs. \<forall>j < length xs. P (xs ! i) \<longrightarrow> P (xs ! j) \<longrightarrow> i = j) \<Longrightarrow>
     length (filter P xs) \<le> 1"
proof (induction xs)
  case Nil
  show ?case by simp
next
  case (Cons x xs)
  have tail: "\<forall>i < length xs. \<forall>j < length xs. P (xs ! i) \<longrightarrow> P (xs ! j) \<longrightarrow> i = j"
  proof (intro allI impI)
    fix i j assume "i < length xs" "j < length xs" "P (xs ! i)" "P (xs ! j)"
    with Cons.prems have "Suc i = Suc j"
      by (metis length_Cons nth_Cons_Suc Suc_less_eq)
    then show "i = j" by simp
  qed
  show ?case
  proof (cases "P x")
    case False
    then show ?thesis using Cons.IH [OF tail] by simp
  next
    case True
    have "\<not> P (xs ! j)" if "j < length xs" for j
    proof
      assume "P (xs ! j)"
      with Cons.prems True that have "0 = Suc j"
        by (metis length_Cons nth_Cons_0 nth_Cons_Suc Suc_less_eq zero_less_Suc)
      then show False by simp
    qed
    then have "filter P xs = []"
      by (auto simp: filter_empty_conv in_set_conv_nth)
    then show ?thesis using True by simp
  qed
qed

lemma initialize_redis_frame:
  "threads (snd (initialize_redis host port db s)) = threads s
   \<and> redis_listener_thread (self (snd (initialize_redis host port db s)))
       = redis_listener_thread (self s)"
  by (auto simp: initialize_defs store_calls Let_def
      split: list.splits option.splits if_splits sum.splits prod.splits)

lemma redis_add_message_stream_frame:
  "threads (snd (redis_add_message_stream m s)) = threads s
   \<and> redis_listener_thread (self (snd (redis_add_message_stream m s)))
       = redis_listener_thread (self s)"
  by (auto simp: redis_add_message_stream_def emit_def store_calls Let_def
      split: list.splits option.splits if_splits sum.splits prod.splits)

lemma redis_close_frame:
  "threads (redis_close s) = threads s
   \<and> redis_listener_thread (self (redis_close s)) = redis_listener_thread (self s)"
  by (simp add: redis_close_def set_conn_def split: option.splits)

lemma redis_stop_listening_frame:
  "length (threads (redis_stop_listening ts s)) = length (threads s)
   \<and> redis_listener_thread (self (redis_stop_listening ts s)) = redis_listener_thread (self s)
   \<and> (\<forall>i < length (threads s).
        pc (threads (redis_stop_listening ts s) ! i) \<noteq> Finished \<longrightarrow>
        pc (threads s ! i) \<noteq> Finished)"
proof -
  have "length (threads (run_worker tid ts (set_running False s))) = length (threads s)
   \<and> redis_listener_thread (self (run_worker tid ts (set_running False s)))
       = redis_listener_thread (self s)
   \<and> (\<forall>i < length (threads s).
        pc (threads (run_worker tid ts (set_running False s)) ! i) \<noteq> Finished \<longrightarrow>
        pc (threads s ! i) \<noteq> Finished)" for tid
    using run_worker_frame [of tid ts "set_running False s"] by (simp add: set_running_def)
  then show ?thesis
    by (simp add: redis_stop_listening_def Let_def join_def emit_def split: option.splits)
       (simp add: set_running_def)
qed

lemma perform_single:
  assumes "\<forall>i < length (threads s).
             pc (threads s ! i) \<noteq> Finished \<longrightarrow> redis_listener_thread (self s) = Some i"
  shows "\<forall>i < length (threads (perform c s)).
           pc (threads (perform c s) ! i) \<noteq> Finished \<longrightarrow>
           redis_listener_thread (self (perform c s)) = Some i"
proof (cases c)
  case (Initialize host port db)
  then show ?thesis using assms initialize_redis_frame [of host port db s] by simp
next
  case (Publish m)
  then show ?thesis using assms redis_add_message_stream_frame [of m s] by simp
next
  case (Start handler_arg)
  show ?thesis
  proof (cases "listener_alive s")
    case True
    then show ?thesis using assms Start by (simp add: redis_start_listening_def emit_def)
  next
    case False
    have dead: "pc (threads s ! i) = Finished" if "i < length (threads s)" for i
      using assms False that by (auto simp: listener_alive_def is_alive_def)
    show ?thesis using False Start dead
      by (auto simp: redis_start_listening_def emit_def Let_def nth_append less_Suc_eq)
  qed
next
  case (Stop ts)
  then show ?thesis using assms redis_stop_listening_frame [of ts s] by auto
next
  case Close
  then show ?thesis using assms redis_close_frame [of s] by simp
next
  case (Work tid t)
  then show ?thesis using assms worker_step_frame [of tid t s] by auto
qed

lemma run_single:
  assumes "\<forall>i < length (threads s).
             pc (threads s ! i) \<noteq> Finished \<longrightarrow> redis_listener_thread (self s) = Some i"
  shows "\<forall>i < length (threads (run calls s)).
           pc (threads (run calls s) ! i) \<noteq> Finished \<longrightarrow>
           redis_listener_thread (self (run calls s)) = Some i"
  using assms
proof (induction calls arbitrary: s)
  case Nil
  then show ?case by (simp add: run_def)
next
  case (Cons c calls)
  have "run (c # calls) s = run calls (perform c s)" by (simp add: run_def)
  then show ?case using Cons.IH [OF perform_single [OF Cons.prems]] by simp
qed

lemma single_active:
  assumes "\<forall>i < length (threads s).
             pc (threads s ! i) \<noteq> Finished \<longrightarrow> redis_listener_thread (self s) = Some i"
  shows "active_workers s \<le> 1"
  unfolding active_workers_def
proof (rule at_most_one, intro allI impI)
  fix i j
  assume "i < length (threads s)" "j < length (threads s)"
    "pc (threads s ! i) \<noteq> Finished" "pc (threads s ! j) \<noteq> Finished"
  with assms have "redis_listener_thread (self s) = Some i"
    "redis_listener_thread (self s) = Some j" by blast+
  then show "i = j" by simp
qed

text \<open>
  C8. When the thread named by the instance's handle is alive,
  \<open>redis_start_listening\<close> writes the warning and changes nothing else: no thread
  is added and the number of active threads is the same. And in every state an
  instance reaches from one without threads, by any sequence of calls and thread
  steps, at most one listener thread is active.
\<close>

theorem start_single_listener:
  "(listener_alive s \<longrightarrow>
      redis_start_listening handler_arg s =
        s\<lparr>trace := trace s @ [Log WARNING Listener_is_already_running]\<rparr>
      \<and> active_workers (redis_start_listening handler_arg s) = active_workers s)
   \<and> (threads s = [] \<longrightarrow> active_workers (run calls s) \<le> 1)"
proof -
  have a: "redis_start_listening handler_arg s =
        s\<lparr>trace := trace s @ [Log WARNING Listener_is_already_running]\<rparr>
      \<and> active_workers (redis_start_listening handler_arg s) = active_workers s"
    if "listener_alive s"
    using that by (simp add: redis_start_listening_def emit_def active_workers_def)
  have b: "active_workers (run calls s) \<le> 1" if "threads s = []"
    by (rule single_active, rule run_single) (simp add: that)
  from a b show ?thesis by blast
qed

theorem start_single_listener_witness:
  "listener_alive started_system
   \<and> redis_start_listening None started_system =
       started_system\<lparr>trace := trace started_system @ [Log WARNING Listener_is_already_running]\<rparr>
   \<and> active_workers (redis_start_listening None started_system) = 1
   \<and> threads fresh_system = []
   \<and> active_workers
        (run [Initialize ''localhost'' 6379 0, Start None, Start None, Work 0 idle, Stop [idle],
              Start None] fresh_system) \<le> 1"
  using start_single_listener [where s = started_system and handler_arg = None]
        start_single_listener
          [where s = fresh_system
             and calls = "[Initialize ''localhost'' 6379 0, Start None, Start None, Work 0 idle,
                           Stop [idle], Start None]"]
  by (simp add: started_system_eq listener_alive_def is_alive_def active_workers_def
      fresh_system_def)

end
